theory Spec2Isabelle
  imports Main "HOL-Library.Word"
begin

unbundle bit_operations_syntax

section \<open>Data model\<close>

text \<open>
  The module \<^verbatim>\<open>elftools/common/construct_utils.py\<close> extends the parser-combinator
  library \<^verbatim>\<open>construct\<close>. A construct parses from a byte stream under a context;
  the stream and the context are mutable Python objects, so every operation of the model
  takes the stream and the context and returns them updated, together with either the
  value it produced or the exception it raised. An exception does not roll the stream
  back: the stream returned beside an error is the stream as the raise left it.
  The \<^verbatim>\<open>path\<close> argument only labels error messages and is left out.
\<close>

type_synonym byte = "8 word"

datatype error =
    EndOfStream
  | StopFieldError
  | NotImplementedError
  | SizeofError
  | IndexError
  | TypeError
  | AttributeError

text \<open>
  Python values, as far as the module handles them. \<open>VList\<close> is a \<^verbatim>\<open>ListContainer\<close>,
  \<open>VContainer\<close> a \<^verbatim>\<open>Container\<close>: a dictionary that keeps the insertion order of its keys.
  \<open>VFunction\<close> is a function object and \<open>VObject\<close> a reference to an object the model
  does not look into (the stream, the table of subcons, a context that refers to itself).
\<close>

datatype val =
    VNone
  | VBool bool
  | VInt int
  | VBytes "byte list"
  | VList "val list"
  | VContainer "(string \<times> val) list"
  | VFunction
  | VObject string

type_synonym container = "(string \<times> val) list"
type_synonym ctx = "(string \<times> val) list"

text \<open>The truth value Python gives a value in a condition.\<close>

fun truthy :: "val \<Rightarrow> bool" where
  "truthy VNone = False"
| "truthy (VBool b) = b"
| "truthy (VInt i) = (i \<noteq> 0)"
| "truthy (VBytes bs) = (bs \<noteq> [])"
| "truthy (VList vs) = (vs \<noteq> [])"
| "truthy (VContainer kvs) = (kvs \<noteq> [])"
| "truthy VFunction = True"
| "truthy (VObject r) = True"

text \<open>
  \<^verbatim>\<open>d[k] = v\<close> on an ordered dictionary: an existing key keeps its place and takes the
  new value, a new key goes to the end. \<^verbatim>\<open>d.update(m)\<close> stores the entries of \<open>m\<close>
  one after the other, in the order of \<open>m\<close>.
\<close>

fun setitem :: "string \<Rightarrow> val \<Rightarrow> (string \<times> val) list \<Rightarrow> (string \<times> val) list" where
  "setitem k v [] = [(k, v)]"
| "setitem k v ((k', v') # kvs) =
     (if k' = k then (k, v) # kvs else (k', v') # setitem k v kvs)"

definition getitem :: "(string \<times> val) list \<Rightarrow> string \<Rightarrow> val option" where
  "getitem d k = map_of d k"

fun update_container :: "container \<Rightarrow> (string \<times> val) list \<Rightarrow> container" where
  "update_container obj [] = obj"
| "update_container obj ((k, v) # kvs) = update_container (setitem k v obj) kvs"

text \<open>
  The stream is an \<^verbatim>\<open>io.BytesIO\<close>: its bytes and the cursor. \<^verbatim>\<open>stream.tell()\<close> is the
  cursor. Reading \<open>n\<close> bytes returns what is left, up to \<open>n\<close> bytes, and moves the
  cursor past it; the library's \<^verbatim>\<open>stream_read\<close> raises when fewer than \<open>n\<close> bytes came
  back (the spec calls this failure \<^verbatim>\<open>EndOfStream\<close>).
\<close>

record stream =
  data :: "byte list"
  pos :: nat

definition tell :: "stream \<Rightarrow> int" where
  "tell s = int (pos s)"

definition stream_read :: "nat \<Rightarrow> stream \<Rightarrow> (error + byte list) \<times> stream" where
  "stream_read n s =
     (let chunk = take n (drop (pos s) (data s));
          s' = s\<lparr>pos := pos s + length chunk\<rparr>
      in if length chunk = n then (Inr chunk, s') else (Inl EndOfStream, s'))"

type_synonym 'a result = "(error + 'a) \<times> stream \<times> ctx"
type_synonym parser = "stream \<Rightarrow> ctx \<Rightarrow> val result"

section \<open>LEB128 decoders\<close>

text \<open>
  The adapters receive the byte run the reader produced: a list of one-byte \<^verbatim>\<open>bytes\<close>
  objects, modelled as the list of those bytes. \<^verbatim>\<open>ord(b)\<close> is the byte as an integer;
  Python integers are unbounded, so the decoded value is an \<open>int\<close>.
\<close>

definition ord_byte :: "byte \<Rightarrow> int" where
  "ord_byte b = uint b"

text \<open>
  The loop \<^verbatim>\<open>for b in reversed(obj): value = (value << 7) + (ord(b) & 0x7F)\<close>,
  over the bytes it visits, in the order it visits them.
\<close>

fun leb_accumulate :: "int \<Rightarrow> byte list \<Rightarrow> int" where
  "leb_accumulate v [] = v"
| "leb_accumulate v (b # bs) = leb_accumulate (push_bit 7 v + (ord_byte b AND 0x7F)) bs"

definition ULEB128_decode :: "byte list \<Rightarrow> int" where
  "ULEB128_decode obj = leb_accumulate 0 (rev obj)"

text \<open>\<^verbatim>\<open>obj[-1]\<close> raises \<^verbatim>\<open>IndexError\<close> on an empty run, after the loop has run.\<close>

definition SLEB128_decode :: "byte list \<Rightarrow> error + int" where
  "SLEB128_decode obj =
     (let v = leb_accumulate 0 (rev obj) in
      if obj = [] then Inl IndexError
      else if ord_byte (last obj) AND 0x40 \<noteq> 0
        then Inr (v OR - push_bit (7 * length obj) 1)
        else Inr v)"

text \<open>
  The repository has no encoder. \<open>encode_bytes\<close> is the reference unsigned LEB128 encoder
  the round-trip property is stated against: seven bits a byte, least significant group
  first, the high bit set on every byte but the last.
\<close>

function encode_bytes :: "nat \<Rightarrow> byte list" where
  "encode_bytes n =
     (if n < 128 then [of_nat n]
      else (of_nat (n mod 128) OR 0x80) # encode_bytes (n div 128))"
  by pat_completeness auto
termination
  by (relation "measure id") auto

text \<open>The accumulation as the spec words it, with OR in place of the addition.\<close>

definition accumulate_or :: "byte list \<Rightarrow> int" where
  "accumulate_or obj = foldr (\<lambda>b acc. push_bit 7 acc OR (ord_byte b AND 0x7F)) obj 0"

section \<open>RepeatUntilExcluding\<close>

text \<open>
  The predicate handed to the constructor is either callable or some other value.
  A callable predicate is applied to the element just parsed, the list so far (the
  element included) and the context; it may raise.
\<close>

datatype predicate =
    Callable "val \<Rightarrow> val list \<Rightarrow> ctx \<Rightarrow> error + val"
  | Constant val

text \<open>
  \<^verbatim>\<open>if not callable(predicate): predicate = lambda _1,_2,_3: predicate\<close>.
  The body of the lambda names the local variable \<^verbatim>\<open>predicate\<close>, and Python looks a
  closure's variable up when the lambda runs: by then the variable holds the lambda
  itself. So the substituted predicate returns a function object whatever the
  constant was.
\<close>

definition effective_predicate :: "predicate \<Rightarrow> val \<Rightarrow> val list \<Rightarrow> ctx \<Rightarrow> error + val" where
  "effective_predicate p =
     (case p of
        Callable f \<Rightarrow> f
      | Constant v \<Rightarrow> (\<lambda>_ _ _. Inr VFunction))"

text \<open>
  The loop \<^verbatim>\<open>for i in itertools.count()\<close> has no bound: with an inner parser that keeps
  succeeding and a predicate that never holds it runs forever, and the model then has
  no result (\<open>None\<close>).
\<close>

partial_function (option) RepeatUntilExcluding_loop ::
  "(val \<Rightarrow> val list \<Rightarrow> ctx \<Rightarrow> error + val) \<Rightarrow> parser \<Rightarrow> nat \<Rightarrow> val list
     \<Rightarrow> stream \<Rightarrow> ctx \<Rightarrow> val result option"
where
  "RepeatUntilExcluding_loop predicate subcon i obj stream context =
     (case subcon stream (setitem ''_index'' (VInt (int i)) context) of
        (Inl err, stream', context') \<Rightarrow> Some (Inl err, stream', context')
      | (Inr e, stream', context') \<Rightarrow>
          (case predicate e (obj @ [e]) context' of
             Inl err \<Rightarrow> Some (Inl err, stream', context')
           | Inr r \<Rightarrow>
               if truthy r then Some (Inr (VList (butlast (obj @ [e]))), stream', context')
               else RepeatUntilExcluding_loop predicate subcon (i + 1) (obj @ [e])
                      stream' context'))"

declare RepeatUntilExcluding_loop.simps [code]

definition RepeatUntilExcluding_parse :: "predicate \<Rightarrow> parser \<Rightarrow> stream \<Rightarrow> ctx \<Rightarrow> val result option" where
  "RepeatUntilExcluding_parse predicate subcon stream context =
     RepeatUntilExcluding_loop (effective_predicate predicate) subcon 0 [] stream context"

text \<open>What a predicate's answer amounts to in the condition: \<open>None\<close> when it raised.\<close>

definition verdict :: "error + val \<Rightarrow> bool option" where
  "verdict r = (case r of Inl err \<Rightarrow> None | Inr v \<Rightarrow> Some (truthy v))"

definition RepeatUntilExcluding_build :: "predicate \<Rightarrow> parser \<Rightarrow> val \<Rightarrow> stream \<Rightarrow> ctx \<Rightarrow> val result" where
  "RepeatUntilExcluding_build predicate subcon obj stream context =
     (Inl NotImplementedError, stream, context)"

definition RepeatUntilExcluding_sizeof :: "predicate \<Rightarrow> parser \<Rightarrow> ctx \<Rightarrow> error + int" where
  "RepeatUntilExcluding_sizeof predicate subcon context = Inl SizeofError"

section \<open>StreamOffset\<close>

definition StreamOffset_parse :: parser where
  "StreamOffset_parse stream context = (Inr (VInt (tell stream)), stream, context)"

text \<open>
  \<^verbatim>\<open>__init__(self)\<close> takes no argument besides the object and hands none to
  \<^verbatim>\<open>Construct.__init__\<close>, and \<^verbatim>\<open>__slots__\<close> is empty: the object has the attributes
  of the library's base class only, whose constructor leaves \<^verbatim>\<open>name\<close> at \<^verbatim>\<open>None\<close>.
  A call with an argument, such as the docstring's \<^verbatim>\<open>StreamOffset("item_offset")\<close>,
  raises \<^verbatim>\<open>TypeError\<close>. The object is modelled by its attribute \<^verbatim>\<open>name\<close>.
\<close>

datatype streamoffset = StreamOffset_object (object_name: "string option")

definition StreamOffset_init :: "val list \<Rightarrow> error + streamoffset" where
  "StreamOffset_init arguments =
     (if arguments = [] then Inr (StreamOffset_object None) else Inl TypeError)"

text \<open>
  \<^verbatim>\<open>context[self.name] = stream.tell()\<close>: the key is \<^verbatim>\<open>self.name\<close>, which can be
  \<^verbatim>\<open>None\<close>, so the keys of the context \<^verbatim>\<open>_build\<close> writes to are \<^verbatim>\<open>None\<close> or a
  string. \<^verbatim>\<open>_build\<close> has no return statement, so it returns \<^verbatim>\<open>None\<close>.
\<close>

type_synonym build_ctx = "(string option \<times> val) list"

fun setitem_key :: "string option \<Rightarrow> val \<Rightarrow> build_ctx \<Rightarrow> build_ctx" where
  "setitem_key k v [] = [(k, v)]"
| "setitem_key k v ((k', v') # kvs) =
     (if k' = k then (k, v) # kvs else (k', v') # setitem_key k v kvs)"

definition getitem_key :: "build_ctx \<Rightarrow> string option \<Rightarrow> val option" where
  "getitem_key d k = map_of d k"

definition StreamOffset_build ::
  "streamoffset \<Rightarrow> val \<Rightarrow> stream \<Rightarrow> build_ctx \<Rightarrow> (error + val) \<times> stream \<times> build_ctx" where
  "StreamOffset_build self obj stream context =
     (Inr VNone, stream, setitem_key (object_name self) (VInt (tell stream)) context)"

text \<open>
  A field gets its name by \<^verbatim>\<open>name / subcon\<close>, the library's renaming wrapper: the
  wrapper holds the name and hands building to the construct it wraps, whose own
  \<^verbatim>\<open>name\<close> it leaves as it is.
\<close>

definition Renamed_build ::
  "string \<Rightarrow> (val \<Rightarrow> stream \<Rightarrow> build_ctx \<Rightarrow> (error + val) \<times> stream \<times> build_ctx)
     \<Rightarrow> val \<Rightarrow> stream \<Rightarrow> build_ctx \<Rightarrow> (error + val) \<times> stream \<times> build_ctx" where
  "Renamed_build newname subcon_build obj stream context = subcon_build obj stream context"

definition StreamOffset_sizeof :: "ctx \<Rightarrow> error + int" where
  "StreamOffset_sizeof context = Inr 0"

section \<open>EmbeddableStruct and Embed\<close>

text \<open>
  A subcon of a struct, as far as the struct looks at it: its \<^verbatim>\<open>name\<close> (\<^verbatim>\<open>None\<close> when it
  has none), whether it is an instance of \<^verbatim>\<open>Embed\<close>, and its \<^verbatim>\<open>_parsereport\<close>.
  \<open>Field n p\<close> is \<^verbatim>\<open>n / p\<close>, the library's renaming wrapper, and \<open>Unnamed p\<close> a construct
  without a name. \<^verbatim>\<open>Embed\<close> defines nothing but its constructor: parsing is the
  wrapped construct's, by the library's \<^verbatim>\<open>Subconstruct\<close>. \<open>Embed p\<close> wraps an unnamed
  construct, such as a struct.
\<close>

datatype subcon =
  Subcon (subcon_name: "string option") (subcon_is_Embed: bool) (subcon_parsereport: parser)

definition Field :: "string \<Rightarrow> parser \<Rightarrow> subcon" where
  "Field n p = Subcon (Some n) False p"

definition Unnamed :: "parser \<Rightarrow> subcon" where
  "Unnamed p = Subcon None False p"

definition Embed :: "parser \<Rightarrow> subcon" where
  "Embed p = Subcon None True p"

text \<open>\<^verbatim>\<open>if sc.name\<close>: the name is neither \<^verbatim>\<open>None\<close> nor the empty string.\<close>

definition field_named :: "subcon \<Rightarrow> bool" where
  "field_named sc = (case subcon_name sc of None \<Rightarrow> False | Some n \<Rightarrow> n \<noteq> [])"

text \<open>
  \<^verbatim>\<open>elif subobj and isinstance(sc, Embed): obj.update(subobj)\<close>. An embedded struct
  returns a container. \<^verbatim>\<open>dict.update\<close> raises on a truthy value that is neither a
  mapping nor a sequence of pairs; the model raises for every value but a container.
\<close>

definition merge_embedded :: "subcon \<Rightarrow> val \<Rightarrow> container \<Rightarrow> error + container" where
  "merge_embedded sc subobj obj =
     (if truthy subobj \<and> subcon_is_Embed sc
      then (case subobj of VContainer m \<Rightarrow> Inr (update_container obj m) | _ \<Rightarrow> Inl TypeError)
      else Inr obj)"

text \<open>The body of the \<^verbatim>\<open>try\<close>: one subcon is parsed and its result stored.\<close>

definition parse_field :: "subcon \<Rightarrow> container \<Rightarrow> stream \<Rightarrow> ctx \<Rightarrow> container result" where
  "parse_field sc obj stream context =
     (case subcon_parsereport sc stream context of
        (Inl err, stream', context') \<Rightarrow> (Inl err, stream', context')
      | (Inr subobj, stream', context') \<Rightarrow>
          if field_named sc
          then (Inr (setitem (the (subcon_name sc)) subobj obj), stream',
                setitem (the (subcon_name sc)) subobj context')
          else (case merge_embedded sc subobj obj of
                  Inl err \<Rightarrow> (Inl err, stream', context')
                | Inr obj' \<Rightarrow> (Inr obj', stream', context')))"

text \<open>
  The loop over \<^verbatim>\<open>self.subcons\<close>: \<^verbatim>\<open>StopFieldError\<close> leaves the loop and the container
  built so far is returned; every other exception goes to the caller.
\<close>

fun parse_subcons :: "subcon list \<Rightarrow> container \<Rightarrow> stream \<Rightarrow> ctx \<Rightarrow> container result" where
  "parse_subcons [] obj stream context = (Inr obj, stream, context)"
| "parse_subcons (sc # scs) obj stream context =
     (case parse_field sc obj stream context of
        (Inl err, stream', context') \<Rightarrow>
          if err = StopFieldError then (Inr obj, stream', context')
          else (Inl err, stream', context')
      | (Inr obj', stream', context') \<Rightarrow> parse_subcons scs obj' stream' context')"

text \<open>
  The context the struct gives its subcons. Attribute access on a container raises
  \<^verbatim>\<open>AttributeError\<close> for a missing key; \<^verbatim>\<open>get\<close> has a default. \<^verbatim>\<open>_\<close> is the
  enclosing context. \<^verbatim>\<open>_subcons\<close>, \<^verbatim>\<open>_io\<close> and \<^verbatim>\<open>_parent\<close> refer to the table of
  subcons, the stream and the container under construction, and \<^verbatim>\<open>_root\<close> to this
  context itself when the enclosing context has no \<^verbatim>\<open>_root\<close>.
\<close>

definition struct_context :: "ctx \<Rightarrow> error + ctx" where
  "struct_context context =
     (case (getitem context ''_params'', getitem context ''_parsing'',
            getitem context ''_building'', getitem context ''_sizing'') of
        (Some params, Some parsing, Some building, Some sizing) \<Rightarrow>
          Inr [(''_'', VContainer context),
               (''_params'', params),
               (''_root'', (case getitem context ''_root'' of
                              Some root \<Rightarrow> root | None \<Rightarrow> VObject ''context'')),
               (''_parsing'', parsing),
               (''_building'', building),
               (''_sizing'', sizing),
               (''_subcons'', VObject ''_subcons''),
               (''_io'', VObject ''stream''),
               (''_index'', (case getitem context ''_index'' of
                               Some i \<Rightarrow> i | None \<Rightarrow> VNone)),
               (''_parent'', VObject ''obj'')]
      | _ \<Rightarrow> Inl AttributeError)"

text \<open>
  \<^verbatim>\<open>obj._io = stream\<close> stores the stream under the key \<^verbatim>\<open>_io\<close> of the result: a
  container keeps its attributes as entries. The context of the subcons is dropped on
  return; the caller's context is the one it passed.
\<close>

definition EmbeddableStruct_parse :: "subcon list \<Rightarrow> parser" where
  "EmbeddableStruct_parse subcons stream context =
     (let obj = setitem ''_io'' (VObject ''stream'') [] in
      case struct_context context of
        Inl err \<Rightarrow> (Inl err, stream, context)
      | Inr context' \<Rightarrow>
          (case parse_subcons subcons obj stream context' of
             (Inl err, stream', _) \<Rightarrow> (Inl err, stream', context)
           | (Inr obj', stream', _) \<Rightarrow> (Inr (VContainer obj'), stream', context)))"

text \<open>
  The subcons that ran to their end, with the state they left, or \<open>None\<close> when one of
  them raised. This is how the theorems below say "fields 1 to k were parsed".
\<close>

fun fields_parsed :: "subcon list \<Rightarrow> container \<Rightarrow> stream \<Rightarrow> ctx
    \<Rightarrow> (container \<times> stream \<times> ctx) option" where
  "fields_parsed [] obj stream context = Some (obj, stream, context)"
| "fields_parsed (sc # scs) obj stream context =
     (case parse_field sc obj stream context of
        (Inl err, stream', context') \<Rightarrow> None
      | (Inr obj', stream', context') \<Rightarrow> fields_parsed scs obj' stream' context')"

section \<open>Constructs of the library\<close>

text \<open>
  The library \<^verbatim>\<open>construct\<close> is outside the repository. The constructs below are the
  ones the examples of the spec need as inner parsers: \<^verbatim>\<open>Bytes(n)\<close> reads \<open>n\<close> bytes,
  \<^verbatim>\<open>Byte\<close> reads one byte as an unsigned integer, \<^verbatim>\<open>StopIf(c)\<close> raises the stop signal
  when \<open>c\<close> holds of the context and consumes nothing, and \<^verbatim>\<open>Struct\<close> is the struct
  \<^verbatim>\<open>EmbeddableStruct\<close> extends: the same loop without the branch for \<^verbatim>\<open>Embed\<close>, which
  named members never reach (the context of its members has no entry \<^verbatim>\<open>_parent\<close>; the
  model gives it one). The context a parse starts from holds the three mode flags and
  \<^verbatim>\<open>_params\<close>.
\<close>

definition Bytes_parse :: "nat \<Rightarrow> parser" where
  "Bytes_parse n stream context =
     (case stream_read n stream of
        (Inl err, stream') \<Rightarrow> (Inl err, stream', context)
      | (Inr bs, stream') \<Rightarrow> (Inr (VBytes bs), stream', context))"

definition Byte_parse :: parser where
  "Byte_parse stream context =
     (case stream_read 1 stream of
        (Inl err, stream') \<Rightarrow> (Inl err, stream', context)
      | (Inr bs, stream') \<Rightarrow> (Inr (VInt (uint (hd bs))), stream', context))"

definition StopIf_parse :: "(ctx \<Rightarrow> bool) \<Rightarrow> parser" where
  "StopIf_parse condfunc stream context =
     (if condfunc context then (Inl StopFieldError, stream, context)
      else (Inr VNone, stream, context))"

definition Struct_parse :: "(string \<times> parser) list \<Rightarrow> parser" where
  "Struct_parse members stream context =
     EmbeddableStruct_parse (map (\<lambda>(n, p). Field n p) members) stream context"

definition parse_context :: ctx where
  "parse_context =
     [(''_parsing'', VBool True), (''_building'', VBool False), (''_sizing'', VBool False),
      (''_params'', VObject ''context'')]"

section \<open>CStringBytes\<close>

text \<open>
  Modelled from the spec: \<^verbatim>\<open>CStringBytes\<close> is \<^verbatim>\<open>NullTerminated(GreedyBytes)\<close>, two
  constructs of the library that the source composes and does not define. By section
  4.6 of the spec the reader takes bytes from the stream until a zero byte, returns
  the bytes before the zero, and fails with \<^verbatim>\<open>EndOfStream\<close> when the stream ends first.
\<close>

function NullTerminated_loop :: "byte list \<Rightarrow> stream \<Rightarrow> (error + byte list) \<times> stream" where
  "NullTerminated_loop acc s =
     (case stream_read 1 s of
        (Inl err, s') \<Rightarrow> (Inl err, s')
      | (Inr b, s') \<Rightarrow>
          if b = [0] then (Inr acc, s') else NullTerminated_loop (acc @ b) s')"
  by pat_completeness auto
termination
proof (relation "measure (\<lambda>(acc, s). length (data s) - pos s)")
  show "wf (measure (\<lambda>(acc, s). length (data s) - pos s))" by simp
next
  fix acc :: "byte list" and s :: stream and x xa y
  assume "(x, y) = stream_read 1 s" and "x = Inr xa"
  then have "stream_read 1 s = (Inr xa, y)" by simp
  then have "pos s < length (data s) \<and> y = s\<lparr>pos := pos s + 1\<rparr>"
    by (auto simp: stream_read_def Let_def split: if_splits)
  then show "((acc @ xa, y), (acc, s)) \<in> measure (\<lambda>(acc, s). length (data s) - pos s)"
    by auto
qed

declare NullTerminated_loop.simps [simp del]

definition CStringBytes_parse :: parser where
  "CStringBytes_parse stream context =
     (case NullTerminated_loop [] stream of
        (Inl err, stream') \<Rightarrow> (Inl err, stream', context)
      | (Inr bs, stream') \<Rightarrow> (Inr (VBytes bs), stream', context))"

section \<open>Properties of the LEB128 decoders\<close>

lemma and_127: "(x::int) AND 127 = take_bit 7 x"
  by (simp add: take_bit_eq_mask mask_eq_exp_minus_1)

lemma leb_accumulate_snoc:
  "leb_accumulate v (bs @ [b]) = push_bit 7 (leb_accumulate v bs) + (ord_byte b AND 0x7F)"
  by (induction bs arbitrary: v) simp_all

lemma shift_add_eq_or:
  "push_bit 7 (v::int) + (x AND 0x7F) = push_bit 7 v OR (x AND 0x7F)"
  by (rule disjunctive_add_eq_or) (simp add: and_127 bit_eq_iff bit_simps)

lemma leb_accumulate_rev:
  "leb_accumulate 0 (rev obj) = accumulate_or obj"
  by (induction obj) (simp_all add: accumulate_or_def leb_accumulate_snoc shift_add_eq_or)

lemma sign_bit_test: "(ord_byte b AND 0x40 \<noteq> 0) = bit b 6"
proof -
  have "(uint b AND 2 ^ 6 = 0) = (\<not> bit (uint b) 6)"
    by (rule and_exp_eq_0_iff_not_bit)
  then show ?thesis by (simp add: ord_byte_def bit_uint_iff)
qed

lemma sign_extend_low7:
  assumes "0 \<le> x" "x < 128"
  shows "(x::int) OR - 128 = x - 128"
proof -
  have x: "take_bit 7 x = x" using assms by (simp add: take_bit_int_eq_self)
  have "take_bit 7 x AND NOT (mask 7) = 0"
    by (simp only: take_bit_eq_mask and.assoc bit.conj_cancel_right and.right_neutral bit.conj_zero_right)
  then have "take_bit 7 x AND - (2 ^ 7) = 0"
    by (simp only: minus_exp_eq_not_mask)
  then have "x AND - 128 = 0" using x by simp
  then have "x + - 128 = x OR - 128" by (rule disjunctive_add_eq_or)
  then show ?thesis by simp
qed

lemma SLEB128_single_byte:
  assumes "b < 0x80" "bit b 6"
  shows "SLEB128_decode [b] = Inr (ord_byte b - 128)"
proof -
  have lt: "uint b < 128" using assms(1) by (simp add: word_less_def)
  have "ord_byte b AND 0x7F = uint b"
    using lt by (simp add: and_127 ord_byte_def take_bit_int_eq_self)
  moreover have "uint b OR - 128 = uint b - 128"
    using lt by (intro sign_extend_low7) simp_all
  ultimately show ?thesis
    using assms(2) by (simp add: SLEB128_decode_def sign_bit_test) (simp add: ord_byte_def)
qed

text \<open>
  C1. The signed decoder accumulates the low seven bits of each byte from the last byte
  of the run to the first, shifting left by seven and combining, and then, when bit 6 of
  the last byte is set, ORs in \<open>- (1 << (7 * run length))\<close>. The run \<open>[0x7F]\<close> decodes to
  \<open>-1\<close>, \<open>[0x3F]\<close> to \<open>63\<close>, \<open>[0xFF, 0x00]\<close> to \<open>127\<close>, and every single-byte run with the
  sign bit set decodes to the byte minus 128. A byte run ends in a byte whose high bit is
  clear, so the byte of a single-byte run is below \<open>0x80\<close>. On an empty list, which is
  no byte run, the code raises \<^verbatim>\<open>IndexError\<close>.
\<close>

theorem SLEB128_decode_sign_extend:
  "SLEB128_decode obj =
     (if obj = [] then Inl IndexError
      else Inr (if bit (last obj) 6
                then accumulate_or obj OR - (2 ^ (7 * length obj))
                else accumulate_or obj))
   \<and> SLEB128_decode [0x7F] = Inr (- 1)
   \<and> SLEB128_decode [0x3F] = Inr 63
   \<and> SLEB128_decode [0xFF, 0x00] = Inr 127
   \<and> (\<forall>b. b < 0x80 \<and> bit b 6 \<longrightarrow> SLEB128_decode [b] = Inr (ord_byte b - 128))"
proof (intro conjI allI impI)
  show "SLEB128_decode obj =
     (if obj = [] then Inl IndexError
      else Inr (if bit (last obj) 6
                then accumulate_or obj OR - (2 ^ (7 * length obj))
                else accumulate_or obj))"
    by (simp add: SLEB128_decode_def Let_def sign_bit_test leb_accumulate_rev)
  show "SLEB128_decode [0x7F] = Inr (- 1)"
    by (simp add: SLEB128_decode_def ord_byte_def)
  show "SLEB128_decode [0x3F] = Inr 63"
    by (simp add: SLEB128_decode_def ord_byte_def)
  show "SLEB128_decode [0xFF, 0x00] = Inr 127"
    by (simp add: SLEB128_decode_def ord_byte_def)
next
  fix b :: byte
  assume "b < 0x80 \<and> bit b 6"
  then show "SLEB128_decode [b] = Inr (ord_byte b - 128)"
    by (simp add: SLEB128_single_byte)
qed

theorem SLEB128_decode_sign_extend_witness:
  "(0x41 :: byte) < 0x80 \<and> bit (0x41 :: byte) 6 \<and> SLEB128_decode [0x41] = Inr (- 63)"
  using SLEB128_decode_sign_extend [of "[0x41]"] by (simp add: ord_byte_def accumulate_or_def)

lemma ord_small: "n < 128 \<Longrightarrow> ord_byte (of_nat n) AND 0x7F = int n"
  by (simp add: and_127 ord_byte_def uint_nat unat_of_nat take_bit_eq_mod)

lemma ord_continuation:
  "ord_byte (of_nat (n mod 128) OR 0x80) AND 0x7F = int (n mod 128)"
proof -
  have "take_bit 7 (uint (of_nat (n mod 128) OR (0x80 :: byte)))
      = take_bit 7 (uint (of_nat (n mod 128) :: byte))"
    by (simp add: uint_or)
  also have "\<dots> = int (n mod 128)"
    by (simp add: uint_nat unat_of_nat take_bit_eq_mod)
  finally show ?thesis by (simp add: and_127 ord_byte_def)
qed

lemma ULEB128_decode_Cons:
  "ULEB128_decode (b # bs) = push_bit 7 (ULEB128_decode bs) + (ord_byte b AND 0x7F)"
  by (simp add: ULEB128_decode_def leb_accumulate_snoc)

text \<open>The round trip holds for every natural number, not only for the seven of the spec.\<close>

lemma ULEB128_roundtrip: "ULEB128_decode (encode_bytes n) = int n"
proof (induction n rule: encode_bytes.induct)
  case (1 n)
  show ?case
  proof (cases "n < 128")
    case True
    then show ?thesis
      by (subst encode_bytes.simps) (simp add: ULEB128_decode_Cons ord_small ULEB128_decode_def)
  next
    case False
    have "ULEB128_decode (encode_bytes n)
        = push_bit 7 (ULEB128_decode (encode_bytes (n div 128))) + int (n mod 128)"
      using False
      by (subst encode_bytes.simps)
         (simp add: ULEB128_decode_Cons ord_continuation del: encode_bytes.simps)
    also have "\<dots> = 128 * int (n div 128) + int (n mod 128)"
      using 1 False by (simp add: push_bit_eq_mult)
    also have "\<dots> = int n"
      by (simp add: zdiv_int zmod_int)
    finally show ?thesis .
  qed
qed

text \<open>
  C2. For each \<open>n\<close> of 0, 1, 127, 128, 300, \<open>2^32 - 1\<close> and \<open>2^63 - 1\<close>, the unsigned
  decoder gives \<open>n\<close> back on the byte run the reference encoder produces for \<open>n\<close>. The
  decoder goes over the run from the last byte to the first with
  \<open>value = (value << 7) | (byte & 0x7F)\<close>; the code adds where the spec ORs, and the two
  agree because the shifted value has its low seven bits clear.
\<close>

theorem ULEB128_decode_encode_bytes:
  "ULEB128_decode (encode_bytes 0) = 0
   \<and> ULEB128_decode (encode_bytes 1) = 1
   \<and> ULEB128_decode (encode_bytes 127) = 127
   \<and> ULEB128_decode (encode_bytes 128) = 128
   \<and> ULEB128_decode (encode_bytes 300) = 300
   \<and> ULEB128_decode (encode_bytes (2 ^ 32 - 1)) = 2 ^ 32 - 1
   \<and> ULEB128_decode (encode_bytes (2 ^ 63 - 1)) = 2 ^ 63 - 1
   \<and> ULEB128_decode obj = accumulate_or obj"
proof (intro conjI)
  show "ULEB128_decode (encode_bytes 0) = 0"
    using ULEB128_roundtrip [of 0] by simp
  show "ULEB128_decode (encode_bytes 1) = 1"
    using ULEB128_roundtrip [of 1] by simp
  show "ULEB128_decode (encode_bytes 127) = 127"
    using ULEB128_roundtrip [of 127] by simp
  show "ULEB128_decode (encode_bytes 128) = 128"
    using ULEB128_roundtrip [of 128] by simp
  show "ULEB128_decode (encode_bytes 300) = 300"
    using ULEB128_roundtrip [of 300] by simp
  show "ULEB128_decode (encode_bytes (2 ^ 32 - 1)) = 2 ^ 32 - 1"
    using ULEB128_roundtrip [of "2 ^ 32 - 1"] by simp
  show "ULEB128_decode (encode_bytes (2 ^ 63 - 1)) = 2 ^ 63 - 1"
    using ULEB128_roundtrip [of "2 ^ 63 - 1"] by simp
  show "ULEB128_decode obj = accumulate_or obj"
    by (simp add: ULEB128_decode_def leb_accumulate_rev)
qed

section \<open>Properties of RepeatUntilExcluding\<close>

text \<open>
  A run of the loop that ends after \<open>n + 1\<close> rounds: \<open>ss k\<close> and \<open>cs k\<close> are the stream and
  the context before round \<open>k\<close>, \<open>es k\<close> the element round \<open>k\<close> parses.
\<close>

lemma loop_trace:
  assumes "\<And>k. k \<le> n \<Longrightarrow>
             subcon (ss k) (setitem ''_index'' (VInt (int (i + k))) (cs k))
               = (Inr (es k), ss (Suc k), cs (Suc k))"
    and "\<And>k. k < n \<Longrightarrow>
             verdict (predicate (es k) (obj @ map es [0..<Suc k]) (cs (Suc k))) = Some False"
    and "verdict (predicate (es n) (obj @ map es [0..<Suc n]) (cs (Suc n))) = Some True"
  shows "RepeatUntilExcluding_loop predicate subcon i obj (ss 0) (cs 0)
           = Some (Inr (VList (obj @ map es [0..<n])), ss (Suc n), cs (Suc n))"
  using assms
proof (induction n arbitrary: i obj ss cs es)
  case 0
  from "0.prems"(1) [of 0]
  have step: "subcon (ss 0) (setitem ''_index'' (VInt (int i)) (cs 0))
                = (Inr (es 0), ss (Suc 0), cs (Suc 0))" by simp
  from "0.prems"(3)
  obtain r where r: "predicate (es 0) (obj @ [es 0]) (cs (Suc 0)) = Inr r" "truthy r"
    by (auto simp: verdict_def split: sum.splits)
  show ?case
    by (subst RepeatUntilExcluding_loop.simps) (simp add: step r)
next
  case (Suc n)
  from Suc.prems(1) [of 0]
  have step: "subcon (ss 0) (setitem ''_index'' (VInt (int i)) (cs 0))
                = (Inr (es 0), ss (Suc 0), cs (Suc 0))" by simp
  from Suc.prems(2) [of 0]
  obtain r where r: "predicate (es 0) (obj @ [es 0]) (cs (Suc 0)) = Inr r" "\<not> truthy r"
    by (auto simp: verdict_def split: sum.splits)
  have shift: "\<And>k. obj @ map es [0..<Suc (Suc k)]
                 = (obj @ [es 0]) @ map (\<lambda>j. es (Suc j)) [0..<Suc k]"
    by (simp add: map_upt_Suc del: upt_Suc)
  have IH: "RepeatUntilExcluding_loop predicate subcon (Suc i) (obj @ [es 0])
              (ss (Suc 0)) (cs (Suc 0))
            = Some (Inr (VList ((obj @ [es 0]) @ map (\<lambda>j. es (Suc j)) [0..<n])),
                    ss (Suc (Suc n)), cs (Suc (Suc n)))"
  proof (rule Suc.IH [where ss = "\<lambda>k. ss (Suc k)" and cs = "\<lambda>k. cs (Suc k)"
                        and es = "\<lambda>k. es (Suc k)"])
    fix k assume "k \<le> n"
    then show "subcon (ss (Suc k)) (setitem ''_index'' (VInt (int (Suc i + k))) (cs (Suc k)))
                 = (Inr (es (Suc k)), ss (Suc (Suc k)), cs (Suc (Suc k)))"
      using Suc.prems(1) [of "Suc k"] by simp
  next
    fix k assume "k < n"
    then have "Suc k < Suc n" by simp
    then show "verdict (predicate (es (Suc k))
                 ((obj @ [es 0]) @ map (\<lambda>j. es (Suc j)) [0..<Suc k]) (cs (Suc (Suc k))))
               = Some False"
      using Suc.prems(2) [of "Suc k"] by (simp only: shift)
  next
    show "verdict (predicate (es (Suc n))
                 ((obj @ [es 0]) @ map (\<lambda>j. es (Suc j)) [0..<Suc n]) (cs (Suc (Suc n))))
               = Some True"
      using Suc.prems(3) by (simp only: shift)
  qed
  have "obj @ map es [0..<Suc n] = (obj @ [es 0]) @ map (\<lambda>j. es (Suc j)) [0..<n]"
    by (simp add: map_upt_Suc del: upt_Suc)
  then show ?case
    by (subst RepeatUntilExcluding_loop.simps) (simp add: step r IH del: upt_Suc)
qed

lemma Byte_parse_at:
  "pos s < length (data s) \<Longrightarrow>
     Byte_parse s c = (Inr (VInt (uint (data s ! pos s))), s\<lparr>pos := Suc (pos s)\<rparr>, c)"
  by (simp add: Byte_parse_def stream_read_def Let_def take_Suc hd_drop_conv_nth)

text \<open>
  C3. Parsing invokes the inner parser again and again, each round under the context
  with \<^verbatim>\<open>_index\<close> set to the round's number, and collects the elements, until the
  predicate, applied to the element just parsed, the elements so far and the context,
  is true; the element that ended the loop is not in the list returned. Here the loop
  ends in round \<open>n\<close>: rounds \<open>0\<close> to \<open>n\<close> parse \<open>es 0\<close> to \<open>es n\<close>, the predicate is false
  on the first \<open>n\<close> of them and true on \<open>es n\<close>. The result is \<open>es 0\<close> to \<open>es (n - 1)\<close>, and
  the stream and the context are as round \<open>n\<close> left them. With a one-byte inner parser
  and the predicate "the byte is 0", the input \<open>[1, 2, 3, 0, 9, 9]\<close> gives \<open>[1, 2, 3]\<close>
  and the cursor right after the \<open>0\<close>: that instance is the witness.
\<close>

theorem RepeatUntilExcluding_parse_excludes_last:
  assumes "ss 0 = stream" and "cs 0 = context"
    and "\<forall>k\<le>n. subcon (ss k) (setitem ''_index'' (VInt (int k)) (cs k))
                 = (Inr (es k), ss (Suc k), cs (Suc k))"
    and "\<forall>k<n. verdict (f (es k) (map es [0..<Suc k]) (cs (Suc k))) = Some False"
    and "verdict (f (es n) (map es [0..<Suc n]) (cs (Suc n))) = Some True"
  shows "RepeatUntilExcluding_parse (Callable f) subcon stream context
           = Some (Inr (VList (map es [0..<n])), ss (Suc n), cs (Suc n))"
proof -
  have "RepeatUntilExcluding_loop f subcon 0 [] (ss 0) (cs 0)
          = Some (Inr (VList ([] @ map es [0..<n])), ss (Suc n), cs (Suc n))"
    by (rule loop_trace) (use assms in simp_all)
  then show ?thesis
    using assms(1,2) by (simp add: RepeatUntilExcluding_parse_def effective_predicate_def)
qed

theorem RepeatUntilExcluding_parse_excludes_last_witness:
  "RepeatUntilExcluding_parse (Callable (\<lambda>e obj c. Inr (VBool (e = VInt 0)))) Byte_parse
     \<lparr>data = [1, 2, 3, 0, 9, 9], pos = 0\<rparr> []
   = Some (Inr (VList [VInt 1, VInt 2, VInt 3]), \<lparr>data = [1, 2, 3, 0, 9, 9], pos = 4\<rparr>,
           [(''_index'', VInt 3)])"
proof -
  define ss :: "nat \<Rightarrow> stream" where "ss = (\<lambda>k. \<lparr>data = [1, 2, 3, 0, 9, 9], pos = k\<rparr>)"
  define cs :: "nat \<Rightarrow> ctx" where
    "cs = (\<lambda>k. if k = 0 then [] else [(''_index'', VInt (int k - 1))])"
  define es :: "nat \<Rightarrow> val" where "es = (\<lambda>k. VInt (uint ([1, 2, 3, 0 :: byte] ! k)))"
  have steps: "\<forall>k\<le>3. Byte_parse (ss k) (setitem ''_index'' (VInt (int k)) (cs k))
                 = (Inr (es k), ss (Suc k), cs (Suc k))"
  proof (intro allI impI)
    fix k :: nat assume "k \<le> 3"
    then have "k = 0 \<or> k = 1 \<or> k = 2 \<or> k = 3" by arith
    then show "Byte_parse (ss k) (setitem ''_index'' (VInt (int k)) (cs k))
                 = (Inr (es k), ss (Suc k), cs (Suc k))"
      by (auto simp: Byte_parse_at ss_def cs_def es_def)
  qed
  have no: "\<forall>k<3. verdict (Inr (VBool (es k = VInt 0))) = Some False"
  proof (intro allI impI)
    fix k :: nat assume "k < 3"
    then have "k = 0 \<or> k = 1 \<or> k = 2" by arith
    then show "verdict (Inr (VBool (es k = VInt 0))) = Some False"
      by (auto simp: verdict_def es_def)
  qed
  have yes: "verdict (Inr (VBool (es 3 = VInt 0))) = Some True"
    by (simp add: verdict_def es_def)
  have "RepeatUntilExcluding_parse (Callable (\<lambda>e obj c. Inr (VBool (e = VInt 0)))) Byte_parse
          \<lparr>data = [1, 2, 3, 0, 9, 9], pos = 0\<rparr> []
        = Some (Inr (VList (map es [0..<3])), ss (Suc 3), cs (Suc 3))"
    by (rule RepeatUntilExcluding_parse_excludes_last [where ss = ss and cs = cs])
       (use steps no yes in \<open>simp_all add: ss_def cs_def\<close>)
  moreover have "map es [0..<3] = [VInt 1, VInt 2, VInt 3]"
    by (simp add: es_def upt_rec)
  ultimately show ?thesis
    by (simp add: ss_def cs_def)
qed

text \<open>
  C9. Building with the combinator raises \<^verbatim>\<open>NotImplementedError\<close> and its size raises
  \<^verbatim>\<open>SizeofError\<close> (the spec's \<^verbatim>\<open>NotImplemented\<close> and \<^verbatim>\<open>SizeIndeterminate\<close>), whatever the
  predicate, the inner construct, the object, the stream and the context: neither ever
  succeeds, and building leaves the stream and the context as they were.
\<close>

theorem RepeatUntilExcluding_build_sizeof_fail:
  "RepeatUntilExcluding_build predicate subcon obj stream context
     = (Inl NotImplementedError, stream, context)
   \<and> RepeatUntilExcluding_sizeof predicate subcon context = Inl SizeofError"
  by (simp add: RepeatUntilExcluding_build_def RepeatUntilExcluding_sizeof_def)

text \<open>
  C10. With a predicate that is not callable, whatever the constant, truthy or falsy,
  parsing invokes the inner parser once and returns the empty list: the predicate put
  in its place answers with a function object, which is truthy, in the first round.
  The stream and the context are as that one invocation left them.
\<close>

theorem RepeatUntilExcluding_parse_constant:
  assumes "subcon stream (setitem ''_index'' (VInt 0) context) = (Inr e, stream', context')"
  shows "RepeatUntilExcluding_parse (Constant v) subcon stream context
           = Some (Inr (VList []), stream', context')"
  unfolding RepeatUntilExcluding_parse_def effective_predicate_def
  by (subst RepeatUntilExcluding_loop.simps) (simp add: assms)

theorem RepeatUntilExcluding_parse_constant_witness:
  "RepeatUntilExcluding_parse (Constant (VBool False)) Byte_parse
     \<lparr>data = [1, 2, 3, 0, 9, 9], pos = 0\<rparr> []
   = Some (Inr (VList []), \<lparr>data = [1, 2, 3, 0, 9, 9], pos = 1\<rparr>, [(''_index'', VInt 0)])
   \<and> RepeatUntilExcluding_parse (Constant (VBool True)) Byte_parse
     \<lparr>data = [1, 2, 3, 0, 9, 9], pos = 0\<rparr> []
   = Some (Inr (VList []), \<lparr>data = [1, 2, 3, 0, 9, 9], pos = 1\<rparr>, [(''_index'', VInt 0)])"
  by (intro conjI; rule RepeatUntilExcluding_parse_constant) (simp_all add: Byte_parse_at)

section \<open>Properties of StreamOffset\<close>

lemma getitem_setitem:
  "getitem (setitem k v d) k' = (if k' = k then Some v else getitem d k')"
  by (induction d) (auto simp: getitem_def)

lemma getitem_Cons:
  "getitem ((k', v') # d) k = (if k = k' then Some v' else getitem d k)"
  by (simp add: getitem_def)

lemma getitem_key_setitem_key:
  "getitem_key (setitem_key k v d) k' = (if k' = k then Some v else getitem_key d k')"
  by (induction d) (auto simp: getitem_key_def)

text \<open>
  C7. In the build direction the marker leaves the stream as it is (it consumes and
  emits nothing), returns \<^verbatim>\<open>None\<close> and stores the current position in the context
  under \<^verbatim>\<open>self.name\<close>. That is not the declared field name: the constructor accepts
  no name (the call of the docstring raises \<^verbatim>\<open>TypeError\<close>) and the object it makes has
  the name \<^verbatim>\<open>None\<close>, so the position goes under the key \<^verbatim>\<open>None\<close> and no key that is
  a field name changes. For the field \<^verbatim>\<open>"pos" / StreamOffset()\<close> built at offset 3 into
  an empty context, the context afterwards holds \<^verbatim>\<open>None: 3\<close> and nothing under
  \<^verbatim>\<open>pos\<close>. The claim asks for the position under the declared field name, as the
  docstring does; the code misses it.
\<close>

theorem StreamOffset_build_writes_under_None:
  "StreamOffset_build self obj stream context
     = (Inr VNone, stream, setitem_key (object_name self) (VInt (int (pos stream))) context)
   \<and> StreamOffset_init [] = Inr (StreamOffset_object None)
   \<and> StreamOffset_init (v # vs) = Inl TypeError
   \<and> getitem_key (snd (snd (StreamOffset_build (StreamOffset_object None) obj stream context)))
         (Some n) = getitem_key context (Some n)
   \<and> getitem_key (snd (snd (StreamOffset_build (StreamOffset_object None) obj stream context)))
         None = Some (VInt (int (pos stream)))
   \<and> Renamed_build ''pos'' (StreamOffset_build (StreamOffset_object None)) VNone
         \<lparr>data = [1, 2, 3], pos = 3\<rparr> []
       = (Inr VNone, \<lparr>data = [1, 2, 3], pos = 3\<rparr>, [(None, VInt 3)])
   \<and> getitem_key [(None, VInt 3)] (Some ''pos'') = None"
  by (simp add: StreamOffset_build_def StreamOffset_init_def Renamed_build_def tell_def
        getitem_key_setitem_key)
     (simp add: getitem_key_def)

text \<open>
  C8. Parsing the marker returns the offset of the stream and leaves the stream and the
  context as they are, so a read after it gives what a read before it would have given;
  its size is 0. At offset 10 it returns 10.
\<close>

theorem StreamOffset_parse_observes:
  "StreamOffset_parse stream context = (Inr (VInt (int (pos stream))), stream, context)
   \<and> StreamOffset_sizeof context = Inr 0
   \<and> fst (StreamOffset_parse \<lparr>data = bs, pos = 10\<rparr> context) = Inr (VInt 10)
   \<and> (case StreamOffset_parse stream context of
         (r, stream', context') \<Rightarrow> stream_read n stream' = stream_read n stream)"
  by (simp add: StreamOffset_parse_def StreamOffset_sizeof_def tell_def)

section \<open>Properties of EmbeddableStruct\<close>

lemma getitem_update_container:
  "distinct (map fst m) \<Longrightarrow>
     getitem (update_container obj m) k
       = (case getitem m k of Some v \<Rightarrow> Some v | None \<Rightarrow> getitem obj k)"
proof (induction m arbitrary: obj)
  case Nil
  then show ?case by (simp add: getitem_def)
next
  case (Cons p m)
  obtain k' v' where p: "p = (k', v')" by (cases p)
  from Cons.prems p have d: "distinct (map fst m)" and notin: "k' \<notin> fst ` set m" by auto
  have none: "getitem m k' = None"
    using notin by (simp add: getitem_def map_of_eq_None_iff)
  show ?case
    using Cons.IH [OF d, of "setitem k' v' obj"] none
    by (auto simp: p getitem_setitem getitem_Cons split: option.splits)
qed

lemma parse_field_named:
  assumes "p s c = (Inr v, s', c')" and "n \<noteq> []"
  shows "parse_field (Field n p) obj s c = (Inr (setitem n v obj), s', setitem n v c')"
  using assms by (simp add: parse_field_def Field_def field_named_def)

lemma parse_field_embed:
  assumes "p s c = (Inr (VContainer m), s', c')"
  shows "parse_field (Embed p) obj s c = (Inr (update_container obj m), s', c')"
  using assms
  by (cases m) (simp_all add: parse_field_def Embed_def field_named_def merge_embedded_def)

lemma parse_subcons_stop:
  assumes "fields_parsed before obj s c = Some (obj', s1, c1)"
    and "subcon_parsereport sc s1 c1 = (Inl StopFieldError, s2, c2)"
  shows "parse_subcons (before @ sc # rest) obj s c = (Inr obj', s2, c2)"
  using assms
proof (induction before arbitrary: obj s c)
  case Nil
  then show ?case by (simp add: parse_field_def)
next
  case (Cons p before)
  then show ?case
    by (auto split: prod.splits sum.splits)
qed

lemma struct_context_parse_context:
  "struct_context parse_context =
     Inr [(''_'', VContainer parse_context), (''_params'', VObject ''context''),
          (''_root'', VObject ''context''), (''_parsing'', VBool True),
          (''_building'', VBool False), (''_sizing'', VBool False),
          (''_subcons'', VObject ''_subcons''), (''_io'', VObject ''stream''),
          (''_index'', VNone), (''_parent'', VObject ''obj'')]"
  by (simp add: struct_context_def parse_context_def getitem_def)

text \<open>
  C4. When the subcons \<open>before\<close> have been parsed and the next subcon raises the stop
  signal, the struct leaves its remaining subcons \<open>rest\<close> alone and returns, as a
  success, the container of what was parsed so far; the cursor is where the raising
  subcon left it, which for one that consumes nothing is right after the last parsed
  field. The container also holds the stream under \<^verbatim>\<open>_io\<close>, which is no declared
  field. The witness is a struct of the four fields a, b, c, d with the stop signal
  raised after b, over the bytes 1, 2, 3, 4: the result has a and b only and the cursor
  is at 2, so c and d consumed nothing.
\<close>

theorem EmbeddableStruct_parse_stop:
  assumes "struct_context context = Inr context0"
    and "fields_parsed before [(''_io'', VObject ''stream'')] stream context0
           = Some (obj, stream1, context1)"
    and "subcon_parsereport sc stream1 context1 = (Inl StopFieldError, stream2, context2)"
  shows "EmbeddableStruct_parse (before @ sc # rest) stream context
           = (Inr (VContainer obj), stream2, context)"
  using parse_subcons_stop [OF assms(2,3), of rest] assms(1)
  by (simp add: EmbeddableStruct_parse_def)

theorem EmbeddableStruct_parse_stop_witness:
  "EmbeddableStruct_parse
     [Field ''a'' Byte_parse, Field ''b'' Byte_parse, Unnamed (StopIf_parse (\<lambda>c. True)),
      Field ''c'' Byte_parse, Field ''d'' Byte_parse]
     \<lparr>data = [1, 2, 3, 4], pos = 0\<rparr> parse_context
   = (Inr (VContainer [(''_io'', VObject ''stream''), (''a'', VInt 1), (''b'', VInt 2)]),
      \<lparr>data = [1, 2, 3, 4], pos = 2\<rparr>, parse_context)"
proof -
  have "EmbeddableStruct_parse
     ([Field ''a'' Byte_parse, Field ''b'' Byte_parse] @ Unnamed (StopIf_parse (\<lambda>c. True))
        # [Field ''c'' Byte_parse, Field ''d'' Byte_parse])
     \<lparr>data = [1, 2, 3, 4], pos = 0\<rparr> parse_context
   = (Inr (VContainer [(''_io'', VObject ''stream''), (''a'', VInt 1), (''b'', VInt 2)]),
      \<lparr>data = [1, 2, 3, 4], pos = 2\<rparr>, parse_context)"
    by (rule EmbeddableStruct_parse_stop [OF struct_context_parse_context])
       (simp_all add: parse_field_def Field_def Unnamed_def field_named_def Byte_parse_at
          StopIf_parse_def)
  then show ?thesis by (simp del: parse_subcons.simps)
qed

lemma inner_struct:
  "Struct_parse [(''b'', Byte_parse), (''c'', Byte_parse)] \<lparr>data = [1, 2, 3, 4], pos = 1\<rparr>
     (setitem ''a'' (VInt 1)
        [(''_'', VContainer parse_context), (''_params'', VObject ''context''),
         (''_root'', VObject ''context''), (''_parsing'', VBool True),
         (''_building'', VBool False), (''_sizing'', VBool False),
         (''_subcons'', VObject ''_subcons''), (''_io'', VObject ''stream''),
         (''_index'', VNone), (''_parent'', VObject ''obj'')])
   = (Inr (VContainer [(''_io'', VObject ''stream''), (''b'', VInt 2), (''c'', VInt 3)]),
      \<lparr>data = [1, 2, 3, 4], pos = 3\<rparr>,
      setitem ''a'' (VInt 1)
        [(''_'', VContainer parse_context), (''_params'', VObject ''context''),
         (''_root'', VObject ''context''), (''_parsing'', VBool True),
         (''_building'', VBool False), (''_sizing'', VBool False),
         (''_subcons'', VObject ''_subcons''), (''_io'', VObject ''stream''),
         (''_index'', VNone), (''_parent'', VObject ''obj'')])"
  by (simp add: Struct_parse_def EmbeddableStruct_parse_def struct_context_def getitem_def
        parse_field_def Field_def field_named_def Byte_parse_at)

text \<open>
  C5. A struct of a field \<open>a\<close>, an embedded construct and a field \<open>d\<close> returns one flat
  container: the entries \<open>m\<close> of the embedded result are entries of the struct's result
  themselves, not a container nested under a key. Where keys collide the later write
  wins, in the order of declaration: \<open>d\<close> over the embedded entries, the embedded
  entries over \<open>a\<close> and over the stream entry \<^verbatim>\<open>_io\<close>. The witness is
  \<^verbatim>\<open>[a, Embed(Struct(b, c)), d]\<close> over the bytes 1, 2, 3, 4, which gives a, b, c, d.
\<close>

theorem EmbeddableStruct_parse_flattens:
  assumes "struct_context context = Inr context0"
    and "pa stream context0 = (Inr va, stream1, context1)"
    and "pe stream1 (setitem a va context1) = (Inr (VContainer m), stream2, context2)"
    and "pd stream2 context2 = (Inr vd, stream3, context3)"
    and "a \<noteq> []" and "d \<noteq> []" and "distinct (map fst m)"
  shows "EmbeddableStruct_parse [Field a pa, Embed pe, Field d pd] stream context
           = (Inr (VContainer
                (setitem d vd (update_container (setitem a va [(''_io'', VObject ''stream'')]) m))),
              stream3, context)
       \<and> getitem (setitem d vd (update_container (setitem a va [(''_io'', VObject ''stream'')]) m)) k
           = (if k = d then Some vd
              else case getitem m k of
                     Some v \<Rightarrow> Some v
                   | None \<Rightarrow> if k = a then Some va
                             else if k = ''_io'' then Some (VObject ''stream'') else None)"
proof
  have "parse_subcons [Field a pa, Embed pe, Field d pd] [(''_io'', VObject ''stream'')]
          stream context0
        = (Inr (setitem d vd (update_container (setitem a va [(''_io'', VObject ''stream'')]) m)),
           stream3, setitem d vd context3)"
    by (simp add: parse_field_named [where p = pa, OF assms(2,5)]
          parse_field_embed [where p = pe, OF assms(3)]
          parse_field_named [where p = pd, OF assms(4,6)] del: setitem.simps)
  then show "EmbeddableStruct_parse [Field a pa, Embed pe, Field d pd] stream context
           = (Inr (VContainer
                (setitem d vd (update_container (setitem a va [(''_io'', VObject ''stream'')]) m))),
              stream3, context)"
    using assms(1)
    by (simp add: EmbeddableStruct_parse_def del: setitem.simps parse_subcons.simps) simp
next
  show "getitem (setitem d vd (update_container (setitem a va [(''_io'', VObject ''stream'')]) m)) k
           = (if k = d then Some vd
              else case getitem m k of
                     Some v \<Rightarrow> Some v
                   | None \<Rightarrow> if k = a then Some va
                             else if k = ''_io'' then Some (VObject ''stream'') else None)"
    using assms(7)
    by (simp add: getitem_setitem getitem_update_container getitem_Cons split: option.splits)
       (simp add: getitem_def)
qed

theorem EmbeddableStruct_parse_flattens_witness:
  "EmbeddableStruct_parse
     [Field ''a'' Byte_parse,
      Embed (Struct_parse [(''b'', Byte_parse), (''c'', Byte_parse)]),
      Field ''d'' Byte_parse]
     \<lparr>data = [1, 2, 3, 4], pos = 0\<rparr> parse_context
   = (Inr (VContainer [(''_io'', VObject ''stream''), (''a'', VInt 1), (''b'', VInt 2),
                       (''c'', VInt 3), (''d'', VInt 4)]),
      \<lparr>data = [1, 2, 3, 4], pos = 4\<rparr>, parse_context)"
  using EmbeddableStruct_parse_flattens
    [OF struct_context_parse_context, where pa = Byte_parse and pd = Byte_parse
      and pe = "Struct_parse [(''b'', Byte_parse), (''c'', Byte_parse)]"
      and a = "''a''" and d = "''d''" and stream = "\<lparr>data = [1, 2, 3, 4], pos = 0\<rparr>"
      and m = "[(''_io'', VObject ''stream''), (''b'', VInt 2), (''c'', VInt 3)]",
     OF _ inner_struct]
  by (simp add: Byte_parse_at)

section \<open>Properties of CStringBytes\<close>

lemma NullTerminated_loop_drop:
  "drop (pos s) (data s) = rest \<Longrightarrow>
     NullTerminated_loop acc s =
       (if 0 \<in> set rest
        then (Inr (acc @ takeWhile (\<lambda>b. b \<noteq> 0) rest),
              s\<lparr>pos := pos s + length (takeWhile (\<lambda>b. b \<noteq> 0) rest) + 1\<rparr>)
        else (Inl EndOfStream, s\<lparr>pos := pos s + length rest\<rparr>))"
proof (induction rest arbitrary: acc s)
  case Nil
  then show ?case
    by (subst NullTerminated_loop.simps) (simp add: stream_read_def)
next
  case (Cons b rest)
  define s1 where "s1 = s\<lparr>pos := Suc (pos s)\<rparr>"
  have rd: "stream_read (Suc 0) s = (Inr [b], s1)"
    using Cons.prems by (simp add: stream_read_def Let_def s1_def)
  have step: "NullTerminated_loop acc s
                = (if b = 0 then (Inr acc, s1) else NullTerminated_loop (acc @ [b]) s1)"
    by (subst NullTerminated_loop.simps) (simp add: rd)
  have "drop (pos s1) (data s1) = rest"
    using Cons.prems by (simp add: s1_def drop_Suc tl_drop [symmetric])
  from Cons.IH [OF this, of "acc @ [b]"] show ?case
    by (simp add: step) (simp add: s1_def)
qed

text \<open>
  C6. The reader takes bytes from the cursor on. When a zero byte is among them it
  returns the bytes before the first zero, without the zero, and the cursor is right
  after that zero; when there is none it fails with \<^verbatim>\<open>EndOfStream\<close>, the stream read
  to its end. On \<^verbatim>\<open>hello\x00world\<close> it returns \<^verbatim>\<open>hello\<close> with the cursor at 6, the
  \<^verbatim>\<open>w\<close> of \<^verbatim>\<open>world\<close>.
\<close>

theorem CStringBytes_parse_reads_to_null:
  "CStringBytes_parse stream context =
     (if 0 \<in> set (drop (pos stream) (data stream))
      then (Inr (VBytes (takeWhile (\<lambda>b. b \<noteq> 0) (drop (pos stream) (data stream)))),
            stream\<lparr>pos := pos stream
               + length (takeWhile (\<lambda>b. b \<noteq> 0) (drop (pos stream) (data stream))) + 1\<rparr>,
            context)
      else (Inl EndOfStream,
            stream\<lparr>pos := pos stream + length (drop (pos stream) (data stream))\<rparr>, context))
   \<and> CStringBytes_parse
         \<lparr>data = [0x68, 0x65, 0x6C, 0x6C, 0x6F, 0x00, 0x77, 0x6F, 0x72, 0x6C, 0x64], pos = 0\<rparr>
         context
       = (Inr (VBytes [0x68, 0x65, 0x6C, 0x6C, 0x6F]),
          \<lparr>data = [0x68, 0x65, 0x6C, 0x6C, 0x6F, 0x00, 0x77, 0x6F, 0x72, 0x6C, 0x64], pos = 6\<rparr>,
          context)"
  by (simp add: CStringBytes_parse_def NullTerminated_loop_drop [OF refl])

end
